theory Spec2Isabelle
  imports Main
begin

section \<open>Text and the character classes of the Python runtime\<close>

text \<open>
  A Python \<^verbatim>\<open>str\<close> is a sequence of Unicode code points, so a text is a list of
  code points. The label that \<^verbatim>\<open>get_stevilka\<close> looks for starts with U+0160
  (352, capital S with caron), which is one code point.

  The source leaves the classification of characters to the Python runtime:
  \<^verbatim>\<open>\d\<close> of \<^verbatim>\<open>re\<close> on a \<^verbatim>\<open>str\<close> pattern is \<^verbatim>\<open>str.isdecimal\<close>,
  \<^verbatim>\<open>\w\<close> is \<^verbatim>\<open>str.isalnum\<close> or the underscore, \<^verbatim>\<open>str.strip\<close> removes
  the \<^verbatim>\<open>str.isspace\<close> characters, and \<^verbatim>\<open>int\<close> of a one-character string
  succeeds exactly on the \<^verbatim>\<open>str.isdecimal\<close> characters. The tables below are
  those of CPython 3.11 (Unicode 14.0.0), as inclusive ranges of code points.
\<close>

type_synonym uchar = nat
type_synonym ustring = "uchar list"

definition ascii :: "string \<Rightarrow> ustring" where
  "ascii s = map of_char s"

definition in_ranges :: "(nat \<times> nat) list \<Rightarrow> nat \<Rightarrow> bool" where
  "in_ranges rs c = list_ex (\<lambda>(lo, hi). lo \<le> c \<and> c \<le> hi) rs"

text \<open>
  Every range of decimal digits is made of blocks of ten consecutive code points, digit
  zero first: the value of a digit is its offset in the range modulo ten.
\<close>

fun range_value :: "(nat \<times> nat) list \<Rightarrow> nat \<Rightarrow> nat option" where
  "range_value [] c = None"
| "range_value ((lo, hi) # rs) c =
     (if lo \<le> c \<and> c \<le> hi then Some ((c - lo) mod 10) else range_value rs c)"

definition decimal_ranges :: "(nat \<times> nat) list" where
  "decimal_ranges =
    [(48, 57), (1632, 1641), (1776, 1785), (1984, 1993), (2406, 2415), (2534, 2543),
     (2662, 2671), (2790, 2799), (2918, 2927), (3046, 3055), (3174, 3183), (3302, 3311),
     (3430, 3439), (3558, 3567), (3664, 3673), (3792, 3801), (3872, 3881), (4160, 4169),
     (4240, 4249), (6112, 6121), (6160, 6169), (6470, 6479), (6608, 6617), (6784, 6793),
     (6800, 6809), (6992, 7001), (7088, 7097), (7232, 7241), (7248, 7257), (42528, 42537),
     (43216, 43225), (43264, 43273), (43472, 43481), (43504, 43513), (43600, 43609), (44016, 44025),
     (65296, 65305), (66720, 66729), (68912, 68921), (69734, 69743), (69872, 69881), (69942, 69951),
     (70096, 70105), (70384, 70393), (70736, 70745), (70864, 70873), (71248, 71257), (71360, 71369),
     (71472, 71481), (71904, 71913), (72016, 72025), (72784, 72793), (73040, 73049), (73120, 73129),
     (92768, 92777), (92864, 92873), (93008, 93017), (120782, 120831), (123200, 123209), (123632, 123641),
     (125264, 125273), (130032, 130041)]"

text \<open>
  The characters of \<^verbatim>\<open>str.isdigit\<close> and \<^verbatim>\<open>str.isnumeric\<close> that are neither
  decimal digits nor alphabetic (superscripts, fractions, circled numbers and so on).
\<close>

definition other_numeric_ranges :: "(nat \<times> nat) list" where
  "other_numeric_ranges =
    [(178, 179), (185, 185), (188, 190), (2548, 2553), (2930, 2935), (3056, 3058),
     (3192, 3198), (3416, 3422), (3440, 3448), (3882, 3891), (4969, 4988), (5870, 5872),
     (6128, 6137), (6618, 6618), (8304, 8304), (8308, 8313), (8320, 8329), (8528, 8578),
     (8581, 8585), (9312, 9371), (9450, 9471), (10102, 10131), (11517, 11517), (12295, 12295),
     (12321, 12329), (12344, 12346), (12690, 12693), (12832, 12841), (12872, 12879), (12881, 12895),
     (12928, 12937), (12977, 12991), (42726, 42735), (43056, 43061), (65799, 65843), (65856, 65912),
     (65930, 65931), (66273, 66299), (66336, 66339), (66369, 66369), (66378, 66378), (66513, 66517),
     (67672, 67679), (67705, 67711), (67751, 67759), (67835, 67839), (67862, 67867), (68028, 68029),
     (68032, 68047), (68050, 68095), (68160, 68168), (68221, 68222), (68253, 68255), (68331, 68335),
     (68440, 68447), (68472, 68479), (68521, 68527), (68858, 68863), (69216, 69246), (69405, 69414),
     (69457, 69460), (69573, 69579), (69714, 69733), (70113, 70132), (71482, 71483), (71914, 71922),
     (72794, 72812), (73664, 73684), (74752, 74862), (93019, 93025), (93824, 93846), (119520, 119539),
     (119648, 119672), (125127, 125135), (126065, 126123), (126125, 126127), (126129, 126132), (126209, 126253),
     (126255, 126269), (127232, 127244)]"

definition space_ranges :: "(nat \<times> nat) list" where
  "space_ranges =
    [(9, 13), (28, 32), (133, 133), (160, 160), (5760, 5760), (8192, 8202),
     (8232, 8233), (8239, 8239), (8287, 8287), (12288, 12288)]"

definition alpha_ranges :: "(nat \<times> nat) list" where
  "alpha_ranges =
    [(65, 90), (97, 122), (170, 170), (181, 181), (186, 186), (192, 214),
     (216, 246), (248, 705), (710, 721), (736, 740), (748, 748), (750, 750),
     (880, 884), (886, 887), (890, 893), (895, 895), (902, 902), (904, 906),
     (908, 908), (910, 929), (931, 1013), (1015, 1153), (1162, 1327), (1329, 1366),
     (1369, 1369), (1376, 1416), (1488, 1514), (1519, 1522), (1568, 1610), (1646, 1647),
     (1649, 1747), (1749, 1749), (1765, 1766), (1774, 1775), (1786, 1788), (1791, 1791),
     (1808, 1808), (1810, 1839), (1869, 1957), (1969, 1969), (1994, 2026), (2036, 2037),
     (2042, 2042), (2048, 2069), (2074, 2074), (2084, 2084), (2088, 2088), (2112, 2136),
     (2144, 2154), (2160, 2183), (2185, 2190), (2208, 2249), (2308, 2361), (2365, 2365),
     (2384, 2384), (2392, 2401), (2417, 2432), (2437, 2444), (2447, 2448), (2451, 2472),
     (2474, 2480), (2482, 2482), (2486, 2489), (2493, 2493), (2510, 2510), (2524, 2525),
     (2527, 2529), (2544, 2545), (2556, 2556), (2565, 2570), (2575, 2576), (2579, 2600),
     (2602, 2608), (2610, 2611), (2613, 2614), (2616, 2617), (2649, 2652), (2654, 2654),
     (2674, 2676), (2693, 2701), (2703, 2705), (2707, 2728), (2730, 2736), (2738, 2739),
     (2741, 2745), (2749, 2749), (2768, 2768), (2784, 2785), (2809, 2809), (2821, 2828),
     (2831, 2832), (2835, 2856), (2858, 2864), (2866, 2867), (2869, 2873), (2877, 2877),
     (2908, 2909), (2911, 2913), (2929, 2929), (2947, 2947), (2949, 2954), (2958, 2960),
     (2962, 2965), (2969, 2970), (2972, 2972), (2974, 2975), (2979, 2980), (2984, 2986),
     (2990, 3001), (3024, 3024), (3077, 3084), (3086, 3088), (3090, 3112), (3114, 3129),
     (3133, 3133), (3160, 3162), (3165, 3165), (3168, 3169), (3200, 3200), (3205, 3212),
     (3214, 3216), (3218, 3240), (3242, 3251), (3253, 3257), (3261, 3261), (3293, 3294),
     (3296, 3297), (3313, 3314), (3332, 3340), (3342, 3344), (3346, 3386), (3389, 3389),
     (3406, 3406), (3412, 3414), (3423, 3425), (3450, 3455), (3461, 3478), (3482, 3505),
     (3507, 3515), (3517, 3517), (3520, 3526), (3585, 3632), (3634, 3635), (3648, 3654),
     (3713, 3714), (3716, 3716), (3718, 3722), (3724, 3747), (3749, 3749), (3751, 3760),
     (3762, 3763), (3773, 3773), (3776, 3780), (3782, 3782), (3804, 3807), (3840, 3840),
     (3904, 3911), (3913, 3948), (3976, 3980), (4096, 4138), (4159, 4159), (4176, 4181),
     (4186, 4189), (4193, 4193), (4197, 4198), (4206, 4208), (4213, 4225), (4238, 4238),
     (4256, 4293), (4295, 4295), (4301, 4301), (4304, 4346), (4348, 4680), (4682, 4685),
     (4688, 4694), (4696, 4696), (4698, 4701), (4704, 4744), (4746, 4749), (4752, 4784),
     (4786, 4789), (4792, 4798), (4800, 4800), (4802, 4805), (4808, 4822), (4824, 4880),
     (4882, 4885), (4888, 4954), (4992, 5007), (5024, 5109), (5112, 5117), (5121, 5740),
     (5743, 5759), (5761, 5786), (5792, 5866), (5873, 5880), (5888, 5905), (5919, 5937),
     (5952, 5969), (5984, 5996), (5998, 6000), (6016, 6067), (6103, 6103), (6108, 6108),
     (6176, 6264), (6272, 6276), (6279, 6312), (6314, 6314), (6320, 6389), (6400, 6430),
     (6480, 6509), (6512, 6516), (6528, 6571), (6576, 6601), (6656, 6678), (6688, 6740),
     (6823, 6823), (6917, 6963), (6981, 6988), (7043, 7072), (7086, 7087), (7098, 7141),
     (7168, 7203), (7245, 7247), (7258, 7293), (7296, 7304), (7312, 7354), (7357, 7359),
     (7401, 7404), (7406, 7411), (7413, 7414), (7418, 7418), (7424, 7615), (7680, 7957),
     (7960, 7965), (7968, 8005), (8008, 8013), (8016, 8023), (8025, 8025), (8027, 8027),
     (8029, 8029), (8031, 8061), (8064, 8116), (8118, 8124), (8126, 8126), (8130, 8132),
     (8134, 8140), (8144, 8147), (8150, 8155), (8160, 8172), (8178, 8180), (8182, 8188),
     (8305, 8305), (8319, 8319), (8336, 8348), (8450, 8450), (8455, 8455), (8458, 8467),
     (8469, 8469), (8473, 8477), (8484, 8484), (8486, 8486), (8488, 8488), (8490, 8493),
     (8495, 8505), (8508, 8511), (8517, 8521), (8526, 8526), (8579, 8580), (11264, 11492),
     (11499, 11502), (11506, 11507), (11520, 11557), (11559, 11559), (11565, 11565), (11568, 11623),
     (11631, 11631), (11648, 11670), (11680, 11686), (11688, 11694), (11696, 11702), (11704, 11710),
     (11712, 11718), (11720, 11726), (11728, 11734), (11736, 11742), (11823, 11823), (12293, 12294),
     (12337, 12341), (12347, 12348), (12353, 12438), (12445, 12447), (12449, 12538), (12540, 12543),
     (12549, 12591), (12593, 12686), (12704, 12735), (12784, 12799), (13312, 19903), (19968, 42124),
     (42192, 42237), (42240, 42508), (42512, 42527), (42538, 42539), (42560, 42606), (42623, 42653),
     (42656, 42725), (42775, 42783), (42786, 42888), (42891, 42954), (42960, 42961), (42963, 42963),
     (42965, 42969), (42994, 43009), (43011, 43013), (43015, 43018), (43020, 43042), (43072, 43123),
     (43138, 43187), (43250, 43255), (43259, 43259), (43261, 43262), (43274, 43301), (43312, 43334),
     (43360, 43388), (43396, 43442), (43471, 43471), (43488, 43492), (43494, 43503), (43514, 43518),
     (43520, 43560), (43584, 43586), (43588, 43595), (43616, 43638), (43642, 43642), (43646, 43695),
     (43697, 43697), (43701, 43702), (43705, 43709), (43712, 43712), (43714, 43714), (43739, 43741),
     (43744, 43754), (43762, 43764), (43777, 43782), (43785, 43790), (43793, 43798), (43808, 43814),
     (43816, 43822), (43824, 43866), (43868, 43881), (43888, 44002), (44032, 55203), (55216, 55238),
     (55243, 55291), (63744, 64109), (64112, 64217), (64256, 64262), (64275, 64279), (64285, 64285),
     (64287, 64296), (64298, 64310), (64312, 64316), (64318, 64318), (64320, 64321), (64323, 64324),
     (64326, 64433), (64467, 64829), (64848, 64911), (64914, 64967), (65008, 65019), (65136, 65140),
     (65142, 65276), (65313, 65338), (65345, 65370), (65382, 65470), (65474, 65479), (65482, 65487),
     (65490, 65495), (65498, 65500), (65536, 65547), (65549, 65574), (65576, 65594), (65596, 65597),
     (65599, 65613), (65616, 65629), (65664, 65786), (66176, 66204), (66208, 66256), (66304, 66335),
     (66349, 66368), (66370, 66377), (66384, 66421), (66432, 66461), (66464, 66499), (66504, 66511),
     (66560, 66717), (66736, 66771), (66776, 66811), (66816, 66855), (66864, 66915), (66928, 66938),
     (66940, 66954), (66956, 66962), (66964, 66965), (66967, 66977), (66979, 66993), (66995, 67001),
     (67003, 67004), (67072, 67382), (67392, 67413), (67424, 67431), (67456, 67461), (67463, 67504),
     (67506, 67514), (67584, 67589), (67592, 67592), (67594, 67637), (67639, 67640), (67644, 67644),
     (67647, 67669), (67680, 67702), (67712, 67742), (67808, 67826), (67828, 67829), (67840, 67861),
     (67872, 67897), (67968, 68023), (68030, 68031), (68096, 68096), (68112, 68115), (68117, 68119),
     (68121, 68149), (68192, 68220), (68224, 68252), (68288, 68295), (68297, 68324), (68352, 68405),
     (68416, 68437), (68448, 68466), (68480, 68497), (68608, 68680), (68736, 68786), (68800, 68850),
     (68864, 68899), (69248, 69289), (69296, 69297), (69376, 69404), (69415, 69415), (69424, 69445),
     (69488, 69505), (69552, 69572), (69600, 69622), (69635, 69687), (69745, 69746), (69749, 69749),
     (69763, 69807), (69840, 69864), (69891, 69926), (69956, 69956), (69959, 69959), (69968, 70002),
     (70006, 70006), (70019, 70066), (70081, 70084), (70106, 70106), (70108, 70108), (70144, 70161),
     (70163, 70187), (70272, 70278), (70280, 70280), (70282, 70285), (70287, 70301), (70303, 70312),
     (70320, 70366), (70405, 70412), (70415, 70416), (70419, 70440), (70442, 70448), (70450, 70451),
     (70453, 70457), (70461, 70461), (70480, 70480), (70493, 70497), (70656, 70708), (70727, 70730),
     (70751, 70753), (70784, 70831), (70852, 70853), (70855, 70855), (71040, 71086), (71128, 71131),
     (71168, 71215), (71236, 71236), (71296, 71338), (71352, 71352), (71424, 71450), (71488, 71494),
     (71680, 71723), (71840, 71903), (71935, 71942), (71945, 71945), (71948, 71955), (71957, 71958),
     (71960, 71983), (71999, 71999), (72001, 72001), (72096, 72103), (72106, 72144), (72161, 72161),
     (72163, 72163), (72192, 72192), (72203, 72242), (72250, 72250), (72272, 72272), (72284, 72329),
     (72349, 72349), (72368, 72440), (72704, 72712), (72714, 72750), (72768, 72768), (72818, 72847),
     (72960, 72966), (72968, 72969), (72971, 73008), (73030, 73030), (73056, 73061), (73063, 73064),
     (73066, 73097), (73112, 73112), (73440, 73458), (73648, 73648), (73728, 74649), (74880, 75075),
     (77712, 77808), (77824, 78894), (82944, 83526), (92160, 92728), (92736, 92766), (92784, 92862),
     (92880, 92909), (92928, 92975), (92992, 92995), (93027, 93047), (93053, 93071), (93760, 93823),
     (93952, 94026), (94032, 94032), (94099, 94111), (94176, 94177), (94179, 94179), (94208, 100343),
     (100352, 101589), (101632, 101640), (110576, 110579), (110581, 110587), (110589, 110590), (110592, 110882),
     (110928, 110930), (110948, 110951), (110960, 111355), (113664, 113770), (113776, 113788), (113792, 113800),
     (113808, 113817), (119808, 119892), (119894, 119964), (119966, 119967), (119970, 119970), (119973, 119974),
     (119977, 119980), (119982, 119993), (119995, 119995), (119997, 120003), (120005, 120069), (120071, 120074),
     (120077, 120084), (120086, 120092), (120094, 120121), (120123, 120126), (120128, 120132), (120134, 120134),
     (120138, 120144), (120146, 120485), (120488, 120512), (120514, 120538), (120540, 120570), (120572, 120596),
     (120598, 120628), (120630, 120654), (120656, 120686), (120688, 120712), (120714, 120744), (120746, 120770),
     (120772, 120779), (122624, 122654), (123136, 123180), (123191, 123197), (123214, 123214), (123536, 123565),
     (123584, 123627), (124896, 124902), (124904, 124907), (124909, 124910), (124912, 124926), (124928, 125124),
     (125184, 125251), (125259, 125259), (126464, 126467), (126469, 126495), (126497, 126498), (126500, 126500),
     (126503, 126503), (126505, 126514), (126516, 126519), (126521, 126521), (126523, 126523), (126530, 126530),
     (126535, 126535), (126537, 126537), (126539, 126539), (126541, 126543), (126545, 126546), (126548, 126548),
     (126551, 126551), (126553, 126553), (126555, 126555), (126557, 126557), (126559, 126559), (126561, 126562),
     (126564, 126564), (126567, 126570), (126572, 126578), (126580, 126583), (126585, 126588), (126590, 126590),
     (126592, 126601), (126603, 126619), (126625, 126627), (126629, 126633), (126635, 126651), (131072, 173791),
     (173824, 177976), (177984, 178205), (178208, 183969), (183984, 191456), (194560, 195101), (196608, 201546)]"

definition is_decimal :: "uchar \<Rightarrow> bool" where
  "is_decimal c = in_ranges decimal_ranges c"

definition is_alpha :: "uchar \<Rightarrow> bool" where
  "is_alpha c = in_ranges alpha_ranges c"

definition is_space :: "uchar \<Rightarrow> bool" where
  "is_space c = in_ranges space_ranges c"

definition is_alnum :: "uchar \<Rightarrow> bool" where
  "is_alnum c = (is_alpha c \<or> is_decimal c \<or> in_ranges other_numeric_ranges c)"

text \<open>The word characters of \<^verbatim>\<open>\w\<close> and \<^verbatim>\<open>\b\<close>; 95 is the underscore.\<close>

definition is_word :: "uchar \<Rightarrow> bool" where
  "is_word c = (is_alnum c \<or> c = 95)"

section \<open>Errors and the primitives of the runtime\<close>

datatype py_error = IndexError | ValueError

text \<open>\<^verbatim>\<open>xs[i]\<close> for an index that is not negative.\<close>

definition py_index :: "'a list \<Rightarrow> nat \<Rightarrow> py_error + 'a" where
  "py_index xs i = (if i < length xs then Inr (xs ! i) else Inl IndexError)"

text \<open>\<^verbatim>\<open>int(c)\<close> for a string \<^verbatim>\<open>c\<close> of one character.\<close>

definition py_int :: "uchar \<Rightarrow> py_error + int" where
  "py_int c = (case range_value decimal_ranges c of
                 None \<Rightarrow> Inl ValueError
               | Some v \<Rightarrow> Inr (int v))"

text \<open>
  A list comprehension \<^verbatim>\<open>[f(i) for i in xs]\<close> whose body may raise: the first
  error ends it.
\<close>

fun comprehension :: "('a \<Rightarrow> py_error + 'b) \<Rightarrow> 'a list \<Rightarrow> py_error + 'b list" where
  "comprehension f [] = Inr []"
| "comprehension f (x # xs) =
     (case f x of
        Inl e \<Rightarrow> Inl e
      | Inr v \<Rightarrow> (case comprehension f xs of Inl e \<Rightarrow> Inl e | Inr vs \<Rightarrow> Inr (v # vs)))"

text \<open>
  \<^verbatim>\<open>s[a:b]\<close> with Python's clamping of the bounds, \<^verbatim>\<open>s.strip()\<close>, and
  \<^verbatim>\<open>s.find(sub, start)\<close>: the lowest index from \<^verbatim>\<open>start\<close> on at which
  \<^verbatim>\<open>sub\<close> occurs, or \<^verbatim>\<open>-1\<close>.
\<close>

definition clamp_index :: "nat \<Rightarrow> int \<Rightarrow> nat" where
  "clamp_index n i = (if i < 0 then nat (max (i + int n) 0) else min (nat i) n)"

definition py_slice :: "'a list \<Rightarrow> int \<Rightarrow> int \<Rightarrow> 'a list" where
  "py_slice s a b =
     (let lo = clamp_index (length s) a; hi = clamp_index (length s) b
      in take (hi - lo) (drop lo s))"

definition strip :: "ustring \<Rightarrow> ustring" where
  "strip s = rev (dropWhile is_space (rev (dropWhile is_space s)))"

function str_find :: "'a list \<Rightarrow> 'a list \<Rightarrow> nat \<Rightarrow> int" where
  "str_find s sub start =
     (if length s < start + length sub then - 1
      else if take (length sub) (drop start s) = sub then int start
      else str_find s sub (Suc start))"
  by pat_completeness auto
termination
  by (relation "measure (\<lambda>(s, sub, start). Suc (length s) - start)") auto

section \<open>The checksum validator\<close>

definition emso_factor_map :: "int list" where
  "emso_factor_map = [7, 6, 5, 4, 3, 2, 7, 6, 5, 4, 3, 2]"

text \<open>The body of the comprehension: \<^verbatim>\<open>int(emso[i]) * emso_factor_map[i]\<close>.\<close>

definition weighted_digit :: "ustring \<Rightarrow> nat \<Rightarrow> py_error + int" where
  "weighted_digit emso i =
     (case py_index emso i of
        Inl e \<Rightarrow> Inl e
      | Inr c \<Rightarrow>
          (case py_int c of
             Inl e \<Rightarrow> Inl e
           | Inr d \<Rightarrow>
               (case py_index emso_factor_map i of
                  Inl e \<Rightarrow> Inl e
                | Inr w \<Rightarrow> Inr (d * w))))"

text \<open>The two assignments to \<^verbatim>\<open>control_digit\<close> in \<^verbatim>\<open>validate_emso\<close>.\<close>

definition control_digit :: "ustring \<Rightarrow> py_error + int" where
  "control_digit emso =
     (case comprehension (weighted_digit emso) [0..<12] of
        Inl e \<Rightarrow> Inl e
      | Inr products \<Rightarrow>
          (let r = sum_list products mod 11
           in Inr (if r = 0 then 0 else 11 - r)))"

definition validate_emso :: "ustring \<Rightarrow> py_error + bool" where
  "validate_emso emso =
     (case control_digit emso of
        Inl e \<Rightarrow> Inl e
      | Inr cd \<Rightarrow>
          (case py_index emso 12 of
             Inl e \<Rightarrow> Inl e
           | Inr c \<Rightarrow>
               (case py_int c of
                  Inl e \<Rightarrow> Inl e
                | Inr d \<Rightarrow> Inr (cd = d))))"

section \<open>The identifier locator\<close>

text \<open>
  \<^verbatim>\<open>\b\<close> at a position: the character before and the character at the position
  differ in being word characters, where the outside of the text counts as not a word
  character.
\<close>

definition at_boundary :: "ustring \<Rightarrow> nat \<Rightarrow> bool" where
  "at_boundary s pos =
     (let thatp = (0 < pos \<and> is_word (s ! (pos - 1)));
          thisp = (pos < length s \<and> is_word (s ! pos))
      in thisp \<noteq> thatp)"

text \<open>The pattern \<^verbatim>\<open>\b\d{13}\b\<close> matches at a position.\<close>

definition match_at :: "ustring \<Rightarrow> nat \<Rightarrow> bool" where
  "match_at s pos =
     (at_boundary s pos \<and> pos + 13 \<le> length s \<and>
      list_all is_decimal (take 13 (drop pos s)) \<and> at_boundary s (pos + 13))"

text \<open>
  \<^verbatim>\<open>re.findall\<close> scans from the left: a match is collected and the scan goes on
  after it, otherwise the scan moves one character on.
\<close>

function findall_from :: "ustring \<Rightarrow> nat \<Rightarrow> ustring list" where
  "findall_from s pos =
     (if length s < pos then []
      else if match_at s pos then take 13 (drop pos s) # findall_from s (pos + 13)
      else findall_from s (Suc pos))"
  by pat_completeness auto
termination
  by (relation "measure (\<lambda>(s, pos). Suc (length s) - pos)") auto

definition findall :: "ustring \<Rightarrow> ustring list" where
  "findall s = findall_from s 0"

text \<open>
  \<^verbatim>\<open>find_valid_emso\<close> returns a tuple of three values when nothing is found and a
  tuple of two values otherwise.
\<close>

datatype find_result =
  Tuple3 "ustring option" bool ustring
| Tuple2 ustring bool

definition find_valid_emso :: "ustring \<Rightarrow> py_error + find_result" where
  "find_valid_emso txt =
     (let numbers = findall txt
      in case numbers of
           [] \<Rightarrow> Inr (Tuple3 None False (ascii ''No 13-digit number found''))
         | first_number # _ \<Rightarrow>
             (case validate_emso first_number of
                Inl e \<Rightarrow> Inl e
              | Inr is_valid \<Rightarrow> Inr (Tuple2 first_number is_valid)))"

section \<open>The reference locator\<close>

definition key :: ustring where
  "key = 352 # ascii ''tevilka:''"

definition get_stevilka :: "ustring \<Rightarrow> ustring option" where
  "get_stevilka txt =
     (let start = str_find txt key 0
      in if start = - 1 then None
         else
           (let start' = start + int (length key);
                end0 = str_find txt [10] (nat start');
                end' = (if end0 = - 1 then int (length txt) else end0)
            in Some (strip (py_slice txt start' end'))))"

section \<open>The document processor\<close>

text \<open>
  \<^verbatim>\<open>process_pdf\<close> reads the document through \<^verbatim>\<open>extract_text_from_pdf\<close>, which
  is input and output: the model takes the extracted text as an argument.
  \<^verbatim>\<open>os.path.basename\<close> is the part of the path after the last slash (47). Unpacking
  the result of \<^verbatim>\<open>find_valid_emso\<close> into two names raises \<^verbatim>\<open>ValueError\<close> on a
  tuple of three values.
\<close>

definition basename :: "ustring \<Rightarrow> ustring" where
  "basename p = rev (takeWhile (\<lambda>c. c \<noteq> 47) (rev p))"

record document_record =
  fileName :: ustring
  stevilkaDokumenta :: "ustring option"
  emso :: "ustring option"
  emsoIsValid :: bool

definition process_pdf :: "ustring \<Rightarrow> ustring \<Rightarrow> py_error + document_record option" where
  "process_pdf pdf_path extracted_text =
     (if extracted_text = [] then Inr None
      else
        (case find_valid_emso extracted_text of
           Inl e \<Rightarrow> Inl e
         | Inr (Tuple3 a b c) \<Rightarrow> Inl ValueError
         | Inr (Tuple2 first_number is_emso_valid) \<Rightarrow>
             Inr (Some \<lparr>fileName = basename pdf_path,
                        stevilkaDokumenta = get_stevilka extracted_text,
                        emso = Some first_number,
                        emsoIsValid = is_emso_valid\<rparr>)))"

section \<open>Notions of the specification\<close>

text \<open>
  The digit a decimal character stands for (what \<^verbatim>\<open>int\<close> returns on it), the
  weights and the control value as the specification writes them, with the sum taken
  over the positions 0 to 11.
\<close>

definition digit_of :: "uchar \<Rightarrow> int" where
  "digit_of c = (case py_int c of Inl e \<Rightarrow> 0 | Inr d \<Rightarrow> d)"

definition weight :: "nat \<Rightarrow> int" where
  "weight i = [7, 6, 5, 4, 3, 2, 7, 6, 5, 4, 3, 2] ! i"

definition spec_control :: "(nat \<Rightarrow> int) \<Rightarrow> int" where
  "spec_control digit =
     (let total = (\<Sum>i = 0..<12. digit i * weight i);
          remainder = total mod 11
      in if remainder = 0 then 0 else 11 - remainder)"

text \<open>The decimal numeral of a number, as \<^verbatim>\<open>str\<close> writes it.\<close>

function py_str :: "nat \<Rightarrow> ustring" where
  "py_str n = (if n < 10 then [48 + n] else py_str (n div 10) @ [48 + n mod 10])"
  by pat_completeness auto
termination
  by (relation "measure (\<lambda>n. n)") auto

text \<open>
  The thirteen characters from a position on, and the two readings of a bounded run of
  thirteen decimal digits at a position: bounded by characters that are not digits, as
  the specification words it, and bounded by characters that are not word characters, as
  \<^verbatim>\<open>\b\<close> decides it.
\<close>

definition run_at :: "ustring \<Rightarrow> nat \<Rightarrow> ustring" where
  "run_at s i = take 13 (drop i s)"

definition digit_bounded_run :: "ustring \<Rightarrow> nat \<Rightarrow> bool" where
  "digit_bounded_run s i =
     (i + 13 \<le> length s \<and> list_all is_decimal (run_at s i) \<and>
      (i = 0 \<or> \<not> is_decimal (s ! (i - 1))) \<and>
      (i + 13 = length s \<or> \<not> is_decimal (s ! (i + 13))))"

definition word_bounded_run :: "ustring \<Rightarrow> nat \<Rightarrow> bool" where
  "word_bounded_run s i =
     (i + 13 \<le> length s \<and> list_all is_decimal (run_at s i) \<and>
      (i = 0 \<or> \<not> is_word (s ! (i - 1))) \<and>
      (i + 13 = length s \<or> \<not> is_word (s ! (i + 13))))"

text \<open>The ten ASCII digits, 0 to 9.\<close>

definition is_ascii_digit :: "uchar \<Rightarrow> bool" where
  "is_ascii_digit c = (48 \<le> c \<and> c \<le> 57)"

text \<open>A string occurs in a text at a position.\<close>

definition occurs_at :: "'a list \<Rightarrow> 'a list \<Rightarrow> nat \<Rightarrow> bool" where
  "occurs_at sub s i = (i + length sub \<le> length s \<and> take (length sub) (drop i s) = sub)"

declare py_str.simps [simp del]
declare str_find.simps [simp del]
declare findall_from.simps [simp del]

section \<open>Characters and digits\<close>

lemma range_value_None: "range_value rs c = None \<longleftrightarrow> \<not> in_ranges rs c"
  by (induction rs) (auto simp: in_ranges_def split: if_splits)

lemma range_value_less: "range_value rs c = Some v \<Longrightarrow> v < 10"
  by (induction rs) (auto split: if_splits)

lemma py_int_decimal: "is_decimal c \<Longrightarrow> py_int c = Inr (digit_of c)"
  using range_value_None [of decimal_ranges c]
  by (auto simp: py_int_def digit_of_def is_decimal_def split: option.splits)

lemma py_int_not_decimal: "\<not> is_decimal c \<Longrightarrow> py_int c = Inl ValueError"
  using range_value_None [of decimal_ranges c]
  by (auto simp: py_int_def is_decimal_def split: option.splits)

lemma digit_of_bounds: "0 \<le> digit_of c \<and> digit_of c \<le> 9"
  using range_value_less [of decimal_ranges c]
  by (auto simp: py_int_def digit_of_def split: option.splits)

lemma ascii_digit: "48 \<le> c \<Longrightarrow> c < 58 \<Longrightarrow> is_decimal c \<and> digit_of c = int c - 48"
proof -
  assume a: "48 \<le> c" "c < 58"
  have "range_value decimal_ranges c = Some (c - 48)"
    using a by (simp add: decimal_ranges_def)
  then show ?thesis
    using a range_value_None [of decimal_ranges c]
    by (auto simp: is_decimal_def py_int_def digit_of_def)
qed

section \<open>The checksum validator: proofs\<close>

lemma comprehension_total:
  "(\<And>x. x \<in> set xs \<Longrightarrow> f x = Inr (g x)) \<Longrightarrow> comprehension f xs = Inr (map g xs)"
  by (induction xs) auto

lemma weighted_digit_value:
  assumes "i < 12" "i < length s" "is_decimal (s ! i)"
  shows "weighted_digit s i = Inr (digit_of (s ! i) * weight i)"
  using assms by (simp add: weighted_digit_def py_index_def py_int_decimal emso_factor_map_def weight_def)

lemma control_digit_value:
  assumes "12 \<le> length s" "list_all is_decimal (take 12 s)"
  shows "control_digit s = Inr (spec_control (\<lambda>i. digit_of (s ! i)))"
proof -
  have dec: "is_decimal (s ! i)" if "i < 12" for i
    using assms that by (auto simp: list_all_length)
  have "comprehension (weighted_digit s) [0..<12]
          = Inr (map (\<lambda>i. digit_of (s ! i) * weight i) [0..<12])"
    by (rule comprehension_total) (use assms dec in \<open>auto simp: weighted_digit_value\<close>)
  moreover have "sum_list (map (\<lambda>i. digit_of (s ! i) * weight i) [0..<12])
          = (\<Sum>i = 0..<12. digit_of (s ! i) * weight i)"
    by (simp only: interv_sum_list_conv_sum_set_nat set_upt)
  ultimately show ?thesis
    by (simp only: control_digit_def spec_control_def Let_def sum.case)
qed

lemma spec_control_bounds: "0 \<le> spec_control d \<and> spec_control d \<le> 10"
proof -
  let ?r = "(\<Sum>i = 0..<12. d i * weight i) mod 11"
  have "0 \<le> ?r" "?r < 11" by simp_all
  then show ?thesis by (auto simp: spec_control_def Let_def)
qed

lemma validate_emso_value:
  assumes "13 \<le> length s" "list_all is_decimal (take 13 s)"
  shows "validate_emso s = Inr (spec_control (\<lambda>i. digit_of (s ! i)) = digit_of (s ! 12))"
proof -
  have "list_all is_decimal (take 12 s)"
    using assms by (auto simp: list_all_length)
  then have "control_digit s = Inr (spec_control (\<lambda>i. digit_of (s ! i)))"
    using assms by (simp add: control_digit_value)
  moreover have "is_decimal (s ! 12)"
    using assms by (auto simp: list_all_length)
  ultimately show ?thesis
    using assms by (simp add: validate_emso_def py_index_def py_int_decimal)
qed

text \<open>
  C2. On a string of thirteen decimal digits \<^verbatim>\<open>validate_emso\<close> returns, without
  raising, whether the digit at position 12 equals the control value of the specification:
  the weighted sum of the first twelve digits modulo 11, turned into 0 when the remainder
  is 0 and into 11 minus the remainder otherwise.
\<close>

theorem validate_emso_checksum:
  assumes "length s = 13" "list_all is_decimal s"
  shows "validate_emso s
           = Inr (digit_of (s ! 12) = spec_control (\<lambda>i. digit_of (s ! i)))"
  using assms validate_emso_value [of s] by (simp add: eq_commute)

lemma ascii_simps: "ascii [] = []" "ascii (c # cs) = of_char c # ascii cs"
  by (simp_all add: ascii_def)


lemma spec_control_cong:
  assumes "\<And>i. i < 12 \<Longrightarrow> f i = g i"
  shows "spec_control f = spec_control g"
proof -
  have "(\<Sum>i = 0..<12. f i * weight i) = (\<Sum>i = 0..<12. g i * weight i)"
    by (rule sum.cong) (simp_all add: assms)
  then show ?thesis
    by (simp add: spec_control_def)
qed

lemma control_digit_prefix:
  assumes "length p = 12" "list_all is_decimal p"
  shows "control_digit (p @ cs) = control_digit p"
proof -
  have "spec_control (\<lambda>i. digit_of ((p @ cs) ! i)) = spec_control (\<lambda>i. digit_of (p ! i))"
    by (rule spec_control_cong) (simp add: assms nth_append)
  then show ?thesis
    using assms by (simp add: control_digit_value)
qed

lemma validate_emso_append:
  assumes "length p = 12" "list_all is_decimal p" "is_decimal c"
  shows "validate_emso (p @ c # cs) = Inr (spec_control (\<lambda>i. digit_of (p ! i)) = digit_of c)"
proof -
  have "spec_control (\<lambda>i. digit_of ((p @ c # cs) ! i)) = spec_control (\<lambda>i. digit_of (p ! i))"
    by (rule spec_control_cong) (simp add: assms nth_append)
  then show ?thesis
    using assms validate_emso_value [of "p @ c # cs"] by (simp add: nth_append)
qed

lemma ascii_digits_filter:
  assumes "0 \<le> k" "k \<le> 10"
  shows "filter (\<lambda>c. k = digit_of c) [48..<58] = (if k = 10 then [] else [48 + nat k])"
proof -
  have d: "(k = digit_of c) = (k = int c - 48)" if "c \<in> set [48..<58]" for c
  proof -
    from that have "48 \<le> c" "c < 58"
      by (simp_all only: set_upt atLeastLessThan_iff)
    then show ?thesis
      using ascii_digit [of c] by simp
  qed
  have "filter (\<lambda>c. k = digit_of c) [48..<58] = filter (\<lambda>c. k = int c - 48) [48..<58]"
    by (rule filter_cong [OF refl d])
  moreover have "k = 0 \<or> k = 1 \<or> k = 2 \<or> k = 3 \<or> k = 4 \<or> k = 5 \<or> k = 6 \<or> k = 7 \<or> k = 8
      \<or> k = 9 \<or> k = 10"
    using assms by arith
  ultimately show ?thesis
    by (elim disjE) simp_all
qed

text \<open>
  C4. For a prefix of twelve decimal digits the control value \<open>k\<close> is between 0 and 10,
  and a thirteenth digit is accepted exactly when its value is \<open>k\<close>: of the ten
  characters 0 to 9 the validator accepts the one for \<open>k\<close> and rejects the other
  nine, and it rejects all ten when \<open>k\<close> is 10.
\<close>

theorem thirteenth_digit:
  assumes "length p = 12" "list_all is_decimal p"
  shows "\<exists>k. control_digit p = Inr k \<and> 0 \<le> k \<and> k \<le> 10 \<and>
           (\<forall>c. is_decimal c \<longrightarrow> validate_emso (p @ [c]) = Inr (k = digit_of c)) \<and>
           filter (\<lambda>c. validate_emso (p @ [c]) = Inr True) [48..<58]
             = (if k = 10 then [] else [48 + nat k])"
proof -
  let ?k = "spec_control (\<lambda>i. digit_of (p ! i))"
  have v: "validate_emso (p @ [c]) = Inr (?k = digit_of c)" if "is_decimal c" for c
    using assms that by (rule validate_emso_append)
  have "(validate_emso (p @ [c]) = Inr True) = (?k = digit_of c)" if "c \<in> set [48..<58]" for c
  proof -
    from that have "48 \<le> c" "c < 58"
      by (simp_all only: set_upt atLeastLessThan_iff)
    then show ?thesis
      using v [of c] ascii_digit [of c] by simp
  qed
  then have "filter (\<lambda>c. validate_emso (p @ [c]) = Inr True) [48..<58]
               = filter (\<lambda>c. ?k = digit_of c) [48..<58]"
    by (rule filter_cong [OF refl])
  also have "\<dots> = (if ?k = 10 then [] else [48 + nat ?k])"
    using spec_control_bounds [of "\<lambda>i. digit_of (p ! i)"] by (intro ascii_digits_filter) simp_all
  finally have f: "filter (\<lambda>c. validate_emso (p @ [c]) = Inr True) [48..<58]
               = (if ?k = 10 then [] else [48 + nat ?k])" .
  have "control_digit p = Inr ?k"
    using assms by (simp add: control_digit_value)
  with v f spec_control_bounds [of "\<lambda>i. digit_of (p ! i)"] show ?thesis
    by blast
qed

text \<open>
  C5, as amended. For a prefix of twelve decimal digits whose control value is not 10,
  appending the numeral of the control value gives a string of thirteen characters that
  the validator accepts.
\<close>

theorem round_trip:
  assumes "length p = 12" "list_all is_decimal p" "control_digit p = Inr k" "k \<noteq> 10"
  shows "length (p @ py_str (nat k)) = 13 \<and> validate_emso (p @ py_str (nat k)) = Inr True"
proof -
  let ?k = "spec_control (\<lambda>i. digit_of (p ! i))"
  have k: "k = ?k"
    using assms by (simp add: control_digit_value)
  then have b: "0 \<le> k" "k < 10"
    using spec_control_bounds [of "\<lambda>i. digit_of (p ! i)"] assms(4) by auto
  then have s: "py_str (nat k) = [48 + nat k]"
    by (simp add: py_str.simps)
  have "is_decimal (48 + nat k) \<and> digit_of (48 + nat k) = k"
    using b ascii_digit [of "48 + nat k"] by auto
  then show ?thesis
    using assms(1,2) k s validate_emso_append [of p "48 + nat k" "[]"] by simp
qed


lemma upt_12: "[0..<12] = [0, 1, 2, 3, 4, 5, 6, 7, 8, 9, 10, 11]"
  by (simp add: upt_rec)

lemma spec_control_list:
  "spec_control d =
     (let r = sum_list (map (\<lambda>i. d i * weight i) [0, 1, 2, 3, 4, 5, 6, 7, 8, 9, 10, 11]) mod 11
      in if r = 0 then 0 else 11 - r)"
  by (simp only: spec_control_def Let_def interv_sum_list_conv_sum_set_nat set_upt
        flip: upt_12)

lemma is_decimal_ascii:
  "is_decimal 48" "is_decimal 49" "is_decimal 50" "is_decimal 51" "is_decimal 52"
  "is_decimal 53" "is_decimal 54" "is_decimal 55" "is_decimal 56" "is_decimal 57"
  by (simp_all add: ascii_digit)

lemma digit_of_ascii:
  "digit_of 48 = 0" "digit_of 49 = 1" "digit_of 50 = 2" "digit_of 51 = 3" "digit_of 52 = 4"
  "digit_of 53 = 5" "digit_of 54 = 6" "digit_of 55 = 7" "digit_of 56 = 8" "digit_of 57 = 9"
  by (simp_all add: ascii_digit)

theorem validate_emso_checksum_witness:
  "length (ascii ''0101006500006'') = 13 \<and> list_all is_decimal (ascii ''0101006500006'') \<and>
   validate_emso (ascii ''0101006500006'') = Inr True"
proof -
  have l: "length (ascii ''0101006500006'') = 13"
    by (simp add: ascii_def)
  have d: "list_all is_decimal (ascii ''0101006500006'')"
    by (simp add: ascii_simps is_decimal_ascii)
  show ?thesis
    using l d validate_emso_checksum [OF l d]
    by (simp add: ascii_simps spec_control_list weight_def digit_of_ascii)
qed

theorem thirteenth_digit_witness:
  "length (ascii ''010100650000'') = 12 \<and> list_all is_decimal (ascii ''010100650000'') \<and>
   control_digit (ascii ''010100650000'') = Inr 6 \<and>
   filter (\<lambda>c. validate_emso (ascii ''010100650000'' @ [c]) = Inr True) [48..<58] = [54]"
proof -
  have l: "length (ascii ''010100650000'') = 12"
    by (simp add: ascii_def)
  have d: "list_all is_decimal (ascii ''010100650000'')"
    by (simp add: ascii_simps is_decimal_ascii)
  have c: "control_digit (ascii ''010100650000'') = Inr 6"
    using l d by (simp add: control_digit_value) (simp add: ascii_simps spec_control_list weight_def digit_of_ascii)
  show ?thesis
    using l d c thirteenth_digit [OF l d] by auto
qed

theorem round_trip_witness:
  "length (ascii ''010100650000'') = 12 \<and> list_all is_decimal (ascii ''010100650000'') \<and>
   control_digit (ascii ''010100650000'') = Inr 6 \<and> (6::int) \<noteq> 10 \<and>
   validate_emso (ascii ''0101006500006'') = Inr True"
proof -
  have l: "length (ascii ''010100650000'') = 12"
    by (simp add: ascii_def)
  have d: "list_all is_decimal (ascii ''010100650000'')"
    by (simp add: ascii_simps is_decimal_ascii)
  have c: "control_digit (ascii ''010100650000'') = Inr 6"
    using l d by (simp add: control_digit_value) (simp add: ascii_simps spec_control_list weight_def digit_of_ascii)
  have n: "(6::int) \<noteq> 10"
    by simp
  have "ascii ''010100650000'' @ py_str (nat 6) = ascii ''0101006500006''"
    by (simp add: py_str.simps ascii_simps)
  then show ?thesis
    using l d c n round_trip [OF l d c n] by simp
qed

text \<open>
  C5 as stated fails for the prefix 020000000000: its control value is 10, the numeral
  of which has two characters, the string of fourteen characters is rejected, and so is
  the prefix followed by any of the ten digits.
\<close>

theorem round_trip_counterexample:
  "control_digit (ascii ''020000000000'') = Inr 10 \<and>
   length (ascii ''020000000000'' @ py_str 10) = 14 \<and>
   validate_emso (ascii ''020000000000'' @ py_str 10) = Inr False \<and>
   filter (\<lambda>c. validate_emso (ascii ''020000000000'' @ [c]) = Inr True) [48..<58] = []"
proof -
  have l: "length (ascii ''020000000000'') = 12"
    by (simp add: ascii_def)
  have d: "list_all is_decimal (ascii ''020000000000'')"
    by (simp add: ascii_simps is_decimal_ascii)
  have k: "spec_control (\<lambda>i. digit_of (ascii ''020000000000'' ! i)) = 10"
    by (simp add: ascii_simps spec_control_list weight_def digit_of_ascii)
  have c: "control_digit (ascii ''020000000000'') = Inr 10"
    using l d k by (simp add: control_digit_value)
  have s: "py_str 10 = [49, 48]"
    by (simp add: py_str.simps)
  have v: "validate_emso (ascii ''020000000000'' @ [c]) = Inr (10 = digit_of c)" if "is_decimal c" for c
    using validate_emso_append [OF l d that, of "[]"] k by simp
  have "validate_emso (ascii ''020000000000'' @ [49, 48]) = Inr False"
    using validate_emso_append [OF l d is_decimal_ascii(2), of "[48]"] k
    by (simp add: digit_of_ascii)
  moreover have "filter (\<lambda>c. validate_emso (ascii ''020000000000'' @ [c]) = Inr True) [48..<58] = []"
    using v by (simp add: is_decimal_ascii digit_of_ascii)
  ultimately show ?thesis
    using c l s by simp
qed


section \<open>The identifier locator: proofs\<close>

lemma upt_split: "a \<le> b \<Longrightarrow> b \<le> c \<Longrightarrow> [a..<c] = [a..<b] @ [b..<c]"
  using upt_add_eq_append [of a b "c - b"] by simp

lemma is_decimal_word: "is_decimal c \<Longrightarrow> is_word c"
  by (simp add: is_word_def is_alnum_def)

lemma run_at_length: "i + 13 \<le> length s \<Longrightarrow> length (run_at s i) = 13"
  by (simp add: run_at_def)

lemma run_at_decimal:
  "i + 13 \<le> length s \<Longrightarrow>
     list_all is_decimal (run_at s i) \<longleftrightarrow> (\<forall>k<13. is_decimal (s ! (i + k)))"
  by (simp add: run_at_def list_all_length)

lemma at_boundary_left:
  assumes "i < length s" "is_word (s ! i)"
  shows "at_boundary s i \<longleftrightarrow> i = 0 \<or> \<not> is_word (s ! (i - 1))"
  using assms by (auto simp: at_boundary_def Let_def)

lemma at_boundary_right:
  assumes "0 < j" "j \<le> length s" "is_word (s ! (j - 1))"
  shows "at_boundary s j \<longleftrightarrow> j = length s \<or> \<not> is_word (s ! j)"
  using assms by (auto simp: at_boundary_def Let_def)

lemma match_at_word_bounded: "match_at s i \<longleftrightarrow> word_bounded_run s i"
proof (cases "i + 13 \<le> length s \<and> list_all is_decimal (run_at s i)")
  case True
  have d: "is_decimal (s ! (i + k))" if "k < 13" for k
    using True that run_at_decimal [of i s] by blast
  have "is_word (s ! i)"
    using d [of 0] by (simp add: is_decimal_word)
  moreover have "is_word (s ! (i + 13 - 1))"
    using d [of 12] by (simp add: is_decimal_word add.commute)
  ultimately show ?thesis
    using True at_boundary_left [of i s] at_boundary_right [of "i + 13" s]
    by (auto simp: match_at_def word_bounded_run_def run_at_def)
next
  case False
  then show ?thesis
    by (auto simp: match_at_def word_bounded_run_def run_at_def)
qed

lemma no_match_inside:
  assumes "match_at s i" "0 < k" "k < 13"
  shows "\<not> match_at s (i + k)"
proof -
  from assms(1) have b: "i + 13 \<le> length s" and "list_all is_decimal (run_at s i)"
    by (simp_all add: match_at_def run_at_def)
  then have d: "is_word (s ! (i + j))" if "j < 13" for j
    using that by (simp add: run_at_decimal is_decimal_word)
  have "i + k - 1 = i + (k - 1)"
    using assms(2) by simp
  then have "is_word (s ! (i + k))" "is_word (s ! (i + k - 1))"
    using assms d [of k] d [of "k - 1"] by simp_all
  then have "\<not> at_boundary s (i + k)"
    using assms b by (simp add: at_boundary_def Let_def)
  then show ?thesis
    by (simp add: match_at_def)
qed

lemma no_match_after_end: "length s < i + 13 \<Longrightarrow> \<not> match_at s i"
  by (simp add: match_at_def)

lemma findall_from_filter:
  "findall_from s pos = map (run_at s) (filter (match_at s) [pos..<Suc (length s)])"
proof (induction s pos rule: findall_from.induct)
  case (1 s pos)
  show ?case
  proof (cases "length s < pos")
    case True
    then show ?thesis
      by (subst findall_from.simps) simp
  next
    case inside: False
    show ?thesis
    proof (cases "match_at s pos")
      case True
      then have b: "pos + 13 \<le> length s"
        by (simp add: match_at_def)
      have "[pos..<Suc (length s)] = pos # [Suc pos..<pos + 13] @ [pos + 13..<Suc (length s)]"
        using b upt_split [of "Suc pos" "pos + 13" "Suc (length s)"]
        by (simp add: upt_conv_Cons del: upt_Suc)
      moreover have "filter (match_at s) [Suc pos..<pos + 13] = []"
      proof -
        have "\<not> match_at s j" if "j \<in> set [Suc pos..<pos + 13]" for j
        proof -
          from that have "0 < j - pos" "j - pos < 13" "pos + (j - pos) = j"
            by auto
          then show ?thesis
            using no_match_inside [OF True, of "j - pos"] by simp
        qed
        then show ?thesis
          by (intro filter_False) blast
      qed
      ultimately have "map (run_at s) (filter (match_at s) [pos..<Suc (length s)])
          = run_at s pos # map (run_at s) (filter (match_at s) [pos + 13..<Suc (length s)])"
        using True by (simp del: upt_Suc)
      moreover have "findall_from s pos = run_at s pos # findall_from s (pos + 13)"
        using True inside by (subst findall_from.simps) (simp add: run_at_def)
      ultimately show ?thesis
        using "1.IH"(1) [OF inside True] by (simp only:)
    next
      case False
      have "[pos..<Suc (length s)] = pos # [Suc pos..<Suc (length s)]"
        using inside by (simp add: upt_conv_Cons del: upt_Suc)
      then have "map (run_at s) (filter (match_at s) [pos..<Suc (length s)])
          = map (run_at s) (filter (match_at s) [Suc pos..<Suc (length s)])"
        using False by (simp del: upt_Suc)
      moreover have "findall_from s pos = findall_from s (Suc pos)"
        using False inside by (subst findall_from.simps) simp
      ultimately show ?thesis
        using "1.IH"(2) [OF inside False] by (simp only:)
    qed
  qed
qed

lemma findall_filter:
  "findall s = map (run_at s) (filter (match_at s) [0..<Suc (length s)])"
  by (simp add: findall_def findall_from_filter)

lemma findall_first:
  assumes "match_at s i" "\<And>j. j < i \<Longrightarrow> \<not> match_at s j"
  shows "\<exists>rest. findall s = run_at s i # rest"
proof -
  have b: "i + 13 \<le> length s"
    using assms(1) by (simp add: match_at_def)
  then have "[0..<Suc (length s)] = [0..<i] @ i # [Suc i..<Suc (length s)]"
    using upt_split [of 0 i "Suc (length s)"] by (simp add: upt_conv_Cons del: upt_Suc)
  moreover have "filter (match_at s) [0..<i] = []"
    using assms(2) by simp
  ultimately show ?thesis
    using assms(1) by (simp add: findall_filter del: upt_Suc)
qed

lemma findall_Nil: "findall s = [] \<longleftrightarrow> (\<forall>i. \<not> match_at s i)"
proof
  assume "findall s = []"
  then have "\<not> match_at s i" if "i < Suc (length s)" for i
    using that by (auto simp: findall_filter filter_empty_conv simp del: upt_Suc)
  moreover have "\<not> match_at s i" if "\<not> i < Suc (length s)" for i
    using that by (intro no_match_after_end) simp
  ultimately show "\<forall>i. \<not> match_at s i"
    by blast
next
  assume "\<forall>i. \<not> match_at s i"
  then show "findall s = []"
    by (simp add: findall_filter del: upt_Suc)
qed

lemma findall_Cons:
  assumes "findall s = n # rest"
  shows "\<exists>i. match_at s i \<and> (\<forall>j<i. \<not> match_at s j) \<and> n = run_at s i"
proof -
  have "\<exists>i. match_at s i"
    using assms findall_Nil [of s] by auto
  then obtain i where i: "match_at s i" "\<And>j. j < i \<Longrightarrow> \<not> match_at s j"
    using exists_least_iff [of "match_at s"] by auto
  then obtain rest' where "findall s = run_at s i # rest'"
    using findall_first [of s i] by blast
  with assms i show ?thesis
    by auto
qed


lemma run_at_take: "j + 13 \<le> m \<Longrightarrow> run_at (take m xs) j = run_at xs j"
  by (simp add: run_at_def drop_take min_def)

lemma word_bounded_digit_bounded: "word_bounded_run s i \<Longrightarrow> digit_bounded_run s i"
  using is_decimal_word by (auto simp: word_bounded_run_def digit_bounded_run_def)

lemma findall_word_bounded:
  "findall s = map (run_at s) (filter (word_bounded_run s) [0..<Suc (length s)])"
proof -
  have "match_at s = word_bounded_run s"
    by (rule ext) (rule match_at_word_bounded)
  then show ?thesis
    by (simp only: findall_filter)
qed

lemma inside_longer_run:
  assumes "(0 < i \<and> is_decimal (s ! (i - 1))) \<or> (i + 13 < length s \<and> is_decimal (s ! (i + 13)))"
  shows "\<not> word_bounded_run s i"
  using assms is_decimal_word by (auto simp: word_bounded_run_def)

text \<open>
  C3, as amended. \<^verbatim>\<open>re.findall\<close> returns, from left to right, the runs of exactly
  thirteen decimal digits that are bounded on each side by the start or end of the text
  or by a character that is not a word character (not a letter, a digit, another numeric
  character or the underscore). In particular a position with a decimal digit right
  before it, or right after its thirteen characters, is never the position of a returned
  run: a run of fourteen or more digits gives no candidate.
\<close>

theorem findall_word_bounded_runs:
  "findall s = map (run_at s) (filter (word_bounded_run s) [0..<Suc (length s)]) \<and>
   (\<forall>i. (0 < i \<and> is_decimal (s ! (i - 1))) \<or> (i + 13 < length s \<and> is_decimal (s ! (i + 13)))
      \<longrightarrow> i \<notin> set (filter (word_bounded_run s) [0..<Suc (length s)]))"
  using findall_word_bounded [of s] inside_longer_run [of _ s] by (simp del: upt_Suc)

lemma validate_run:
  assumes "word_bounded_run s i"
  shows "validate_emso (run_at s i)
           = Inr (spec_control (\<lambda>k. digit_of (run_at s i ! k)) = digit_of (run_at s i ! 12))"
proof -
  have "length (run_at s i) = 13" "list_all is_decimal (run_at s i)"
    using assms by (auto simp: word_bounded_run_def run_at_def)
  then show ?thesis
    by (intro validate_emso_value) simp_all
qed

lemma find_valid_emso_first:
  assumes "word_bounded_run s i" "\<And>j. j < i \<Longrightarrow> \<not> word_bounded_run s j"
  shows "find_valid_emso s
           = Inr (Tuple2 (run_at s i)
                (spec_control (\<lambda>k. digit_of (run_at s i ! k)) = digit_of (run_at s i ! 12)))"
proof -
  obtain rest where "findall s = run_at s i # rest"
    using assms findall_first [of s i] by (auto simp: match_at_word_bounded)
  then show ?thesis
    using validate_run [OF assms(1)] by (simp add: find_valid_emso_def)
qed

lemma find_valid_emso_not_found:
  assumes "\<And>i. \<not> word_bounded_run s i"
  shows "find_valid_emso s = Inr (Tuple3 None False (ascii ''No 13-digit number found''))"
proof -
  have "findall s = []"
    using assms by (simp add: findall_Nil match_at_word_bounded)
  then show ?thesis
    by (simp add: find_valid_emso_def)
qed

lemma find_valid_emso_cases:
  "find_valid_emso s =
     (case findall s of
        [] \<Rightarrow> Inr (Tuple3 None False (ascii ''No 13-digit number found''))
      | n # rest \<Rightarrow> Inr (Tuple2 n (spec_control (\<lambda>k. digit_of (n ! k)) = digit_of (n ! 12))))"
proof (cases "findall s")
  case Nil
  then show ?thesis
    by (simp add: find_valid_emso_def)
next
  case (Cons n rest)
  then obtain i where "word_bounded_run s i" "n = run_at s i"
    using findall_Cons [of s n rest] by (auto simp: match_at_word_bounded)
  then show ?thesis
    using Cons validate_run [of s i] by (simp add: find_valid_emso_def)
qed

lemma word_bounded_run_agree:
  assumes "take (i + 14) s' = take (i + 14) s" "j \<le> i" "i + 13 \<le> length s"
  shows "word_bounded_run s' j = word_bounded_run s j"
proof -
  have len: "min (length s') (i + 14) = min (length s) (i + 14)"
    using assms(1) by (metis length_take)
  have nth: "s' ! k = s ! k" if "k < i + 14" "k < length s" for k
  proof -
    have "take (i + 14) s' ! k = take (i + 14) s ! k"
      by (simp only: assms(1))
    then show ?thesis
      using that by simp
  qed
  have l1: "j + 13 \<le> length s' \<longleftrightarrow> j + 13 \<le> length s"
    using len assms(2,3) by linarith
  have l2: "j + 13 = length s' \<longleftrightarrow> j + 13 = length s"
    using len assms(2,3) by linarith
  have run: "run_at s' j = run_at s j"
    using assms(2) run_at_take [of j "i + 14" s'] run_at_take [of j "i + 14" s]
    by (simp add: assms(1))
  have left: "s' ! (j - 1) = s ! (j - 1)" if "j + 13 \<le> length s"
    using that assms(2) by (intro nth) simp_all
  have right: "s' ! (j + 13) = s ! (j + 13)" if "j + 13 < length s"
    using that assms(2) by (intro nth) simp_all
  show ?thesis
    using l1 l2 run left right by (auto simp: word_bounded_run_def)
qed

text \<open>
  C6. When the text has a run that the locator matches, \<^verbatim>\<open>find_valid_emso\<close> returns
  the leftmost one paired with the verdict of \<^verbatim>\<open>validate_emso\<close> on it, whatever the
  verdict is; the result is the same for every text that agrees with this one up to the
  character after that run, so nothing later in the text has a part in it.
\<close>

theorem find_valid_emso_leftmost:
  assumes "word_bounded_run s i" "\<forall>j<i. \<not> word_bounded_run s j"
  shows "\<exists>v. validate_emso (run_at s i) = Inr v \<and>
           find_valid_emso s = Inr (Tuple2 (run_at s i) v) \<and>
           (\<forall>s'. take (i + 14) s' = take (i + 14) s \<longrightarrow>
              find_valid_emso s' = Inr (Tuple2 (run_at s i) v))"
proof -
  let ?v = "spec_control (\<lambda>k. digit_of (run_at s i ! k)) = digit_of (run_at s i ! 12)"
  have b: "i + 13 \<le> length s"
    using assms(1) by (simp add: word_bounded_run_def)
  have "find_valid_emso s' = Inr (Tuple2 (run_at s i) ?v)"
    if eq: "take (i + 14) s' = take (i + 14) s" for s'
  proof -
    have "word_bounded_run s' i" "\<And>j. j < i \<Longrightarrow> \<not> word_bounded_run s' j"
      using assms word_bounded_run_agree [OF eq _ b] by simp_all
    then have "find_valid_emso s'
        = Inr (Tuple2 (run_at s' i)
            (spec_control (\<lambda>k. digit_of (run_at s' i ! k)) = digit_of (run_at s' i ! 12)))"
      by (rule find_valid_emso_first)
    moreover have "run_at s' i = run_at s i"
      using run_at_take [of i "i + 14" s'] run_at_take [of i "i + 14" s]
      by (simp add: eq)
    ultimately show ?thesis
      by simp
  qed
  moreover have "find_valid_emso s = Inr (Tuple2 (run_at s i) ?v)"
    using assms by (intro find_valid_emso_first) simp_all
  ultimately show ?thesis
    using validate_run [OF assms(1)] by blast
qed

text \<open>
  C8, as amended. A candidate returned by \<^verbatim>\<open>find_valid_emso\<close> has exactly thirteen
  characters, each of them a decimal digit in the sense of \<^verbatim>\<open>\d\<close> (a Unicode decimal
  digit, of which the ASCII digits are ten), and it is a run of the text between word
  boundaries.
\<close>

theorem candidate_digits:
  assumes "find_valid_emso s = Inr (Tuple2 n v)"
  shows "length n = 13 \<and> list_all is_decimal n \<and> (\<exists>i. word_bounded_run s i \<and> n = run_at s i)"
proof -
  obtain rest where "findall s = n # rest"
    using assms by (auto simp: find_valid_emso_def split: list.splits sum.splits)
  then obtain i where i: "word_bounded_run s i" "n = run_at s i"
    using findall_Cons [of s n rest] by (auto simp: match_at_word_bounded)
  then have "length n = 13" "list_all is_decimal n"
    by (auto simp: word_bounded_run_def run_at_def)
  with i show ?thesis
    by blast
qed

section \<open>The identifier locator on examples\<close>

lemma is_word_a: "is_word 97"
  by (simp add: is_word_def is_alnum_def is_alpha_def in_ranges_def alpha_ranges_def)

lemma not_word_space: "\<not> is_word 32"
  by (simp add: is_word_def is_alnum_def is_alpha_def is_decimal_def in_ranges_def
      alpha_ranges_def decimal_ranges_def other_numeric_ranges_def)

lemma not_decimal_a: "\<not> is_decimal 97"
  by (simp add: is_decimal_def in_ranges_def decimal_ranges_def)

lemma not_decimal_space: "\<not> is_decimal 32"
  by (simp add: is_decimal_def in_ranges_def decimal_ranges_def)

text \<open>
  C3 as stated fails on the text a1234567890123: the thirteen digits from position 1
  are bounded by a character that is not a digit and by the end of the text, and
  \<^verbatim>\<open>re.findall\<close> returns nothing, since there is no word boundary between the
  letter and the first digit.
\<close>

theorem findall_digit_bounded_counterexample:
  "digit_bounded_run (ascii ''a1234567890123'') 1 \<and> findall (ascii ''a1234567890123'') = []"
proof -
  let ?s = "ascii ''a1234567890123''"
  have s: "?s = [97, 49, 50, 51, 52, 53, 54, 55, 56, 57, 48, 49, 50, 51]"
    by (simp add: ascii_simps)
  have "digit_bounded_run ?s 1"
    unfolding s by (simp add: digit_bounded_run_def run_at_def is_decimal_ascii not_decimal_a)
  moreover have "\<not> word_bounded_run ?s i" for i
  proof -
    consider "i = 0" | "i = 1" | "1 < i"
      by linarith
    then show ?thesis
    proof cases
      case 1
      then show ?thesis
        unfolding s by (simp add: word_bounded_run_def run_at_def not_decimal_a)
    next
      case 2
      then show ?thesis
        unfolding s by (simp add: word_bounded_run_def is_word_a)
    next
      case 3
      then show ?thesis
        unfolding s by (simp add: word_bounded_run_def)
    qed
  qed
  then have "findall ?s = []"
    by (simp add: findall_Nil match_at_word_bounded)
  ultimately show ?thesis
    by simp
qed

theorem findall_word_bounded_runs_witness:
  "(13 < length (ascii ''12345678901234 0101006500006'') \<and>
    is_decimal (ascii ''12345678901234 0101006500006'' ! 13)) \<and>
   findall (ascii ''12345678901234 0101006500006'') = [ascii ''0101006500006''] \<and>
   0 \<notin> set (filter (word_bounded_run (ascii ''12345678901234 0101006500006''))
                [0..<Suc (length (ascii ''12345678901234 0101006500006''))])"
proof -
  let ?s = "ascii ''12345678901234 0101006500006''"
  have s: "?s = [49, 50, 51, 52, 53, 54, 55, 56, 57, 48, 49, 50, 51, 52, 32,
                 48, 49, 48, 49, 48, 48, 54, 53, 48, 48, 48, 48, 54]"
    by (simp add: ascii_simps)
  have h: "13 < length ?s \<and> is_decimal (?s ! 13)"
    unfolding s by (simp add: is_decimal_ascii)
  have f: "filter (word_bounded_run ?s) [0..<Suc (length ?s)] = [15]"
    unfolding s
    by (simp add: word_bounded_run_def run_at_def is_decimal_ascii not_decimal_space
        not_word_space is_decimal_ascii [THEN is_decimal_word])
  have r: "run_at ?s 15 = ascii ''0101006500006''"
    unfolding s by (simp add: run_at_def ascii_simps)
  show ?thesis
    using h f r findall_word_bounded_runs [of ?s] by simp
qed


lemma less_4: "j < 4 \<longleftrightarrow> j = 0 \<or> j = 1 \<or> j = 2 \<or> j = (3::nat)"
  by arith

lemma is_word_o: "is_word 111"
  by (simp add: is_word_def is_alnum_def is_alpha_def in_ranges_def alpha_ranges_def)

lemma not_decimal_fo: "\<not> is_decimal 102" "\<not> is_decimal 111"
  by (simp_all add: is_decimal_def in_ranges_def decimal_ranges_def)

lemma arabic_indic_digit:
  "1632 \<le> c \<Longrightarrow> c < 1642 \<Longrightarrow> is_decimal c \<and> digit_of c = int c - 1632"
proof -
  assume a: "1632 \<le> c" "c < 1642"
  have "range_value decimal_ranges c = Some (c - 1632)"
    using a by (simp add: decimal_ranges_def)
  then show ?thesis
    using a range_value_None [of decimal_ranges c]
    by (auto simp: is_decimal_def py_int_def digit_of_def)
qed

theorem find_valid_emso_leftmost_witness:
  "word_bounded_run (ascii ''foo 1234567890123 bar 0101006500006'') 4 \<and>
   list_all (\<lambda>j. \<not> word_bounded_run (ascii ''foo 1234567890123 bar 0101006500006'') j) [0, 1, 2, 3] \<and>
   validate_emso (ascii ''0101006500006'') = Inr True \<and>
   find_valid_emso (ascii ''foo 1234567890123 bar 0101006500006'')
     = Inr (Tuple2 (ascii ''1234567890123'') False) \<and>
   find_valid_emso (ascii ''foo 1234567890123 xyz'') = Inr (Tuple2 (ascii ''1234567890123'') False)"
proof -
  let ?s = "ascii ''foo 1234567890123 bar 0101006500006''"
  let ?t = "ascii ''foo 1234567890123 xyz''"
  have s: "?s = [102, 111, 111, 32, 49, 50, 51, 52, 53, 54, 55, 56, 57, 48, 49, 50, 51, 32,
                 98, 97, 114, 32, 48, 49, 48, 49, 48, 48, 54, 53, 48, 48, 48, 48, 54]"
    by (simp add: ascii_simps)
  have h1: "word_bounded_run ?s 4"
    unfolding s by (simp add: word_bounded_run_def run_at_def is_decimal_ascii not_word_space)
  have n: "\<not> word_bounded_run ?s 0" "\<not> word_bounded_run ?s 1" "\<not> word_bounded_run ?s 2"
      "\<not> word_bounded_run ?s 3"
    unfolding s
    by (simp_all add: word_bounded_run_def run_at_def not_decimal_fo not_decimal_space is_word_o)
  then have h2: "\<forall>j<4. \<not> word_bounded_run ?s j"
    by (simp add: less_4)
  have r: "run_at ?s 4 = ascii ''1234567890123''"
    unfolding s by (simp add: run_at_def ascii_simps)
  have v: "validate_emso (ascii ''1234567890123'') = Inr False"
    using validate_emso_value [of "ascii ''1234567890123''"]
    by (simp add: ascii_simps spec_control_list weight_def digit_of_ascii is_decimal_ascii)
  have v2: "validate_emso (ascii ''0101006500006'') = Inr True"
    using validate_emso_value [of "ascii ''0101006500006''"]
    by (simp add: ascii_simps spec_control_list weight_def digit_of_ascii is_decimal_ascii)
  have t: "take (4 + 14) ?t = take (4 + 14) ?s"
    by (simp add: ascii_simps)
  show ?thesis
    using find_valid_emso_leftmost [OF h1 h2] h1 n r v v2 t by auto
qed

text \<open>
  C8 as stated fails on a text of thirteen Arabic-Indic digits (U+0661 and so on): the
  locator returns them as the candidate, and none of them is an ASCII digit.
\<close>

theorem candidate_ascii_counterexample:
  "find_valid_emso [1633, 1634, 1635, 1636, 1637, 1638, 1639, 1640, 1641, 1632, 1633, 1634, 1635]
     = Inr (Tuple2 [1633, 1634, 1635, 1636, 1637, 1638, 1639, 1640, 1641, 1632, 1633, 1634, 1635]
          False) \<and>
   list_all is_decimal [1633, 1634, 1635, 1636, 1637, 1638, 1639, 1640, 1641, 1632, 1633, 1634, 1635] \<and>
   \<not> list_all is_ascii_digit
        [1633, 1634, 1635, 1636, 1637, 1638, 1639, 1640, 1641, 1632, 1633, 1634, 1635]"
proof -
  let ?s = "[1633, 1634, 1635, 1636, 1637, 1638, 1639, 1640, 1641, 1632, 1633, 1634, 1635] :: ustring"
  have d: "list_all is_decimal ?s"
    by (simp add: arabic_indic_digit)
  then have w: "word_bounded_run ?s 0"
    by (simp add: word_bounded_run_def run_at_def)
  have "find_valid_emso ?s
          = Inr (Tuple2 (run_at ?s 0)
               (spec_control (\<lambda>k. digit_of (run_at ?s 0 ! k)) = digit_of (run_at ?s 0 ! 12)))"
    using w by (intro find_valid_emso_first) simp_all
  moreover have "run_at ?s 0 = ?s"
    by (simp add: run_at_def)
  moreover have "spec_control (\<lambda>k. digit_of (?s ! k)) \<noteq> digit_of (?s ! 12)"
    by (simp add: spec_control_list weight_def arabic_indic_digit)
  ultimately show ?thesis
    using d by (simp add: is_ascii_digit_def)
qed

theorem candidate_digits_witness:
  "find_valid_emso (ascii ''foo 1234567890123 bar'') = Inr (Tuple2 (ascii ''1234567890123'') False) \<and>
   length (ascii ''1234567890123'') = 13 \<and> list_all is_decimal (ascii ''1234567890123'')"
proof -
  let ?s = "ascii ''foo 1234567890123 bar''"
  have s: "?s = [102, 111, 111, 32, 49, 50, 51, 52, 53, 54, 55, 56, 57, 48, 49, 50, 51, 32,
                 98, 97, 114]"
    by (simp add: ascii_simps)
  have h1: "word_bounded_run ?s 4"
    unfolding s by (simp add: word_bounded_run_def run_at_def is_decimal_ascii not_word_space)
  have n: "\<not> word_bounded_run ?s j" if "j < 4" for j
    using that unfolding s less_4
    by (auto simp: word_bounded_run_def run_at_def not_decimal_fo not_decimal_space is_word_o)
  have r: "run_at ?s 4 = ascii ''1234567890123''"
    unfolding s by (simp add: run_at_def ascii_simps)
  have "spec_control (\<lambda>k. digit_of (ascii ''1234567890123'' ! k))
          \<noteq> digit_of (ascii ''1234567890123'' ! 12)"
    by (simp add: ascii_simps spec_control_list weight_def digit_of_ascii)
  then have f: "find_valid_emso ?s = Inr (Tuple2 (ascii ''1234567890123'') False)"
    using find_valid_emso_first [of ?s 4, OF h1 n] r by simp
  show ?thesis
    using f candidate_digits [OF f] by simp
qed

section \<open>The reference locator and the document processor: proofs\<close>

lemma occurs_at_single: "occurs_at [c] s i \<longleftrightarrow> i < length s \<and> s ! i = c"
  by (auto simp: occurs_at_def take_Suc_conv_app_nth hd_drop_conv_nth take_Suc)

lemma str_find_result:
  "(str_find s sub start = - 1 \<and> (\<forall>i\<ge>start. \<not> occurs_at sub s i)) \<or>
   (\<exists>i\<ge>start. str_find s sub start = int i \<and> occurs_at sub s i \<and>
      (\<forall>j. start \<le> j \<and> j < i \<longrightarrow> \<not> occurs_at sub s j))"
proof (induction s sub start rule: str_find.induct)
  case (1 s sub start)
  show ?case
  proof (cases "length s < start + length sub")
    case True
    then have "str_find s sub start = - 1"
      by (subst str_find.simps) simp
    moreover have "\<not> occurs_at sub s i" if "start \<le> i" for i
      using True that by (simp add: occurs_at_def)
    ultimately show ?thesis
      by blast
  next
    case fits: False
    show ?thesis
    proof (cases "take (length sub) (drop start s) = sub")
      case True
      then have "str_find s sub start = int start"
        using fits by (subst str_find.simps) simp
      moreover have "occurs_at sub s start"
        using True fits by (simp add: occurs_at_def)
      ultimately show ?thesis
        by auto
    next
      case False
      then have unf: "str_find s sub start = str_find s sub (Suc start)"
        using fits by (subst str_find.simps) simp
      have here: "\<not> occurs_at sub s start"
        using False by (simp add: occurs_at_def)
      have low: "\<not> occurs_at sub s j" if "start \<le> j" "j < Suc start" for j
        using that here by (simp add: le_less_Suc_eq)
      from "1.IH" [OF fits False] show ?thesis
      proof (elim disjE conjE exE)
        assume "str_find s sub (Suc start) = - 1" "\<forall>i\<ge>Suc start. \<not> occurs_at sub s i"
        then show ?thesis
          using unf here by (metis Suc_leI le_neq_implies_less)
      next
        fix i
        assume i: "Suc start \<le> i" "str_find s sub (Suc start) = int i" "occurs_at sub s i"
          "\<forall>j. Suc start \<le> j \<and> j < i \<longrightarrow> \<not> occurs_at sub s j"
        have "\<not> occurs_at sub s j" if "start \<le> j" "j < i" for j
          using that i(4) here by (metis Suc_leI le_neq_implies_less)
        then show ?thesis
          using unf i by (metis Suc_leD)
      qed
    qed
  qed
qed

lemma str_find_absent:
  assumes "\<And>i. start \<le> i \<Longrightarrow> \<not> occurs_at sub s i"
  shows "str_find s sub start = - 1"
  using str_find_result [of s sub start] assms by auto

lemma str_find_first:
  assumes "start \<le> i" "occurs_at sub s i" "\<And>j. start \<le> j \<Longrightarrow> j < i \<Longrightarrow> \<not> occurs_at sub s j"
  shows "str_find s sub start = int i"
proof -
  from str_find_result [of s sub start] show ?thesis
  proof (elim disjE conjE exE)
    assume "\<forall>i\<ge>start. \<not> occurs_at sub s i"
    then show ?thesis
      using assms(1,2) by blast
  next
    fix k
    assume k: "start \<le> k" "str_find s sub start = int k" "occurs_at sub s k"
      "\<forall>j. start \<le> j \<and> j < k \<longrightarrow> \<not> occurs_at sub s j"
    have "\<not> k < i"
      using assms(3) k(1,3) by blast
    moreover have "\<not> i < k"
      using assms(1,2) k(4) by blast
    ultimately show ?thesis
      using k(2) by simp
  qed
qed

lemma py_slice_nat:
  "a \<le> b \<Longrightarrow> b \<le> length s \<Longrightarrow> py_slice s (int a) (int b) = take (b - a) (drop a s)"
  by (simp add: py_slice_def clamp_index_def Let_def)

lemma line_after:
  "py_slice s (int a) (if str_find s [10] a = - 1 then int (length s) else str_find s [10] a)
     = takeWhile (\<lambda>c. c \<noteq> 10) (drop a s)" if "a \<le> length s" for s :: ustring
proof -
  from str_find_result [of s "[10]" a] show ?thesis
  proof (elim disjE conjE exE)
    assume e: "str_find s [10] a = - 1" and n: "\<forall>i\<ge>a. \<not> occurs_at [10] s i"
    have "\<forall>c \<in> set (drop a s). c \<noteq> 10"
      using n by (auto simp: occurs_at_single in_set_conv_nth)
    then have tw: "takeWhile (\<lambda>c. c \<noteq> 10) (drop a s) = drop a s"
      by (simp add: takeWhile_eq_all_conv)
    show ?thesis
      using e that py_slice_nat [of a "length s" s] by (simp add: tw)
  next
    fix i
    assume i: "a \<le> i" "str_find s [10] a = int i" "occurs_at [10] s i"
      "\<forall>j. a \<le> j \<and> j < i \<longrightarrow> \<not> occurs_at [10] s j"
    have l: "i < length s" and nl: "s ! i = 10"
      using i(3) by (simp_all add: occurs_at_single)
    have tw: "takeWhile (\<lambda>c. c \<noteq> 10) (drop a s) = take (i - a) (drop a s)"
    proof (rule takeWhile_eq_take_P_nth)
      fix k
      assume "k < i - a" "k < length (drop a s)"
      then show "drop a s ! k \<noteq> 10"
        using i(4) [rule_format, of "a + k"] l by (simp add: occurs_at_single)
    next
      show "\<not> drop a s ! (i - a) \<noteq> 10"
        using i(1) l nl by simp
    qed
    show ?thesis
      using i(1,2) l py_slice_nat [of a i s] by (simp add: tw)
  qed
qed


lemma get_stevilka_absent:
  assumes "\<And>i. \<not> occurs_at key t i"
  shows "get_stevilka t = None"
  using assms str_find_absent [of 0 key t] by (simp add: get_stevilka_def)

lemma get_stevilka_present:
  assumes "occurs_at key t i" "\<And>j. j < i \<Longrightarrow> \<not> occurs_at key t j"
  shows "get_stevilka t = Some (strip (takeWhile (\<lambda>c. c \<noteq> 10) (drop (i + length key) t)))"
proof -
  have f: "str_find t key 0 = int i"
    using assms by (intro str_find_first) simp_all
  have b: "i + length key \<le> length t"
    using assms(1) by (simp add: occurs_at_def)
  have "int i + int (length key) = int (i + length key)"
    by simp
  then show ?thesis
    using line_after [OF b] unfolding get_stevilka_def f Let_def
    by (simp only: nat_int) simp
qed

lemma get_stevilka_line:
  assumes "get_stevilka t = Some v"
  shows "\<exists>xs. v = strip (takeWhile (\<lambda>c. c \<noteq> 10) xs)"
proof -
  have "\<exists>i. occurs_at key t i"
    using assms get_stevilka_absent [of t] by fastforce
  then obtain i where "occurs_at key t i" "\<And>j. j < i \<Longrightarrow> \<not> occurs_at key t j"
    using exists_least_iff [of "occurs_at key t"] by auto
  then show ?thesis
    using assms get_stevilka_present [of t i] by auto
qed

lemma set_strip: "set (strip s) \<subseteq> set s"
  by (auto simp: strip_def dest!: set_dropWhileD)

lemma last_dropWhile: "dropWhile P xs \<noteq> [] \<Longrightarrow> last (dropWhile P xs) = last xs"
  using takeWhile_dropWhile_id [of P xs] last_appendR [of "dropWhile P xs" "takeWhile P xs"]
  by simp

lemma strip_ends:
  assumes "strip s \<noteq> []"
  shows "\<not> is_space (hd (strip s)) \<and> \<not> is_space (last (strip s))"
proof -
  let ?u = "dropWhile is_space s"
  let ?w = "dropWhile is_space (rev ?u)"
  have w: "?w \<noteq> []"
    using assms by (simp add: strip_def)
  have u: "?u \<noteq> []"
  proof
    assume "?u = []"
    then have "?w = []"
      by (simp only: rev.simps dropWhile.simps)
    with w show False ..
  qed
  have "\<not> is_space (hd ?w)"
    using w by (rule hd_dropWhile)
  then have "\<not> is_space (last (strip s))"
    using w by (simp add: strip_def last_rev)
  moreover have "last ?w = last (rev ?u)"
    using w by (rule last_dropWhile)
  then have "hd (strip s) = hd ?u"
    using w u by (simp add: strip_def hd_rev last_rev)
  then have "\<not> is_space (hd (strip s))"
    using u hd_dropWhile [of is_space s] by simp
  ultimately show ?thesis
    by simp
qed

lemma dropWhile_id: "xs = [] \<or> \<not> P (hd xs) \<Longrightarrow> dropWhile P xs = xs"
  by (cases xs) auto

lemma strip_idem: "strip (strip s) = strip s"
proof (cases "strip s = []")
  case True
  have "strip [] = []"
    by (simp add: strip_def)
  with True show ?thesis
    by simp
next
  case False
  then have e: "\<not> is_space (hd (strip s))" "\<not> is_space (last (strip s))"
    using strip_ends [of s] by simp_all
  have "dropWhile is_space (strip s) = strip s"
    using e(1) by (intro dropWhile_id) simp
  moreover have "dropWhile is_space (rev (strip s)) = rev (strip s)"
    using e(2) False by (intro dropWhile_id) (simp add: hd_rev)
  ultimately show ?thesis
    by (simp add: strip_def [of "strip s"])
qed

text \<open>
  C7. \<^verbatim>\<open>get_stevilka\<close> returns nothing when the label occurs nowhere in the text.
  When the label occurs, with its first occurrence at position \<open>i\<close>, the result is the
  text from right after that occurrence up to the next newline (10), or up to the end of
  the text when no newline follows, with the white space at both ends removed; whatever
  remains is returned, the empty string too.
\<close>

theorem get_stevilka_spec:
  "((\<forall>i. \<not> occurs_at key t i) \<longrightarrow> get_stevilka t = None) \<and>
   (\<forall>i. occurs_at key t i \<and> (\<forall>j<i. \<not> occurs_at key t j) \<longrightarrow>
      get_stevilka t = Some (strip (takeWhile (\<lambda>c. c \<noteq> 10) (drop (i + length key) t))))"
  using get_stevilka_absent [of t] get_stevilka_present [of t] by blast

text \<open>
  C10. A value that \<^verbatim>\<open>get_stevilka\<close> returns holds no newline and is its own
  trimmed form: it is empty, or its first and its last character are not white space.
\<close>

theorem get_stevilka_trimmed:
  assumes "get_stevilka t = Some v"
  shows "10 \<notin> set v \<and> strip v = v \<and> (v = [] \<or> \<not> is_space (hd v) \<and> \<not> is_space (last v))"
proof -
  obtain xs where v: "v = strip (takeWhile (\<lambda>c. c \<noteq> 10) xs)"
    using assms get_stevilka_line by blast
  have "10 \<notin> set (takeWhile (\<lambda>c. c \<noteq> 10) xs)"
    by (auto dest: set_takeWhileD)
  then have "10 \<notin> set v"
    using set_strip [of "takeWhile (\<lambda>c. c \<noteq> 10) xs"] v by blast
  moreover have "strip v = v"
    by (simp add: v strip_idem)
  moreover have "v = [] \<or> \<not> is_space (hd v) \<and> \<not> is_space (last v)"
    using strip_ends [of "takeWhile (\<lambda>c. c \<noteq> 10) xs"] v by blast
  ultimately show ?thesis
    by simp
qed


lemma occurs_at_hd: "occurs_at (c # cs) s i \<Longrightarrow> c \<in> set s"
proof -
  assume "occurs_at (c # cs) s i"
  then have "take (Suc (length cs)) (drop i s) = c # cs"
    by (simp add: occurs_at_def)
  then have "c \<in> set (take (Suc (length cs)) (drop i s))"
    by simp
  then show ?thesis
    by (meson in_set_takeD in_set_dropD)
qed

lemma not_decimal_key:
  "\<not> is_decimal 352" "\<not> is_decimal 116" "\<not> is_decimal 101" "\<not> is_decimal 118"
  "\<not> is_decimal 105" "\<not> is_decimal 108" "\<not> is_decimal 107" "\<not> is_decimal 97"
  "\<not> is_decimal 58"
  by (simp_all add: is_decimal_def in_ranges_def decimal_ranges_def)

lemma less_3: "j < 3 \<longleftrightarrow> j = 0 \<or> j = 1 \<or> j = (2::nat)"
  by arith

lemma key_chars: "key = [352, 116, 101, 118, 105, 108, 107, 97, 58]"
  by (simp add: key_def ascii_simps)

lemma space_chars: "is_space 32" "is_space 9" "\<not> is_space 65" "\<not> is_space 52" "\<not> is_space 50"
  by (simp_all add: is_space_def in_ranges_def space_ranges_def)

lemma process_pdf_cases:
  "process_pdf p s =
     (if s = [] then Inr None
      else case findall s of
             [] \<Rightarrow> Inl ValueError
           | n # rest \<Rightarrow>
               Inr (Some \<lparr>fileName = basename p, stevilkaDokumenta = get_stevilka s,
                          emso = Some n,
                          emsoIsValid = (spec_control (\<lambda>k. digit_of (n ! k)) = digit_of (n ! 12))\<rparr>))"
  by (simp add: process_pdf_def find_valid_emso_cases split: list.splits)

lemma short_text_no_run: "length s < 13 \<Longrightarrow> \<not> word_bounded_run s i"
  by (simp add: word_bounded_run_def)

theorem get_stevilka_spec_witness:
  "occurs_at key (ascii ''...'' @ key @ ascii '' AB-123/2024'' @ [10] @ ascii ''foo 1234567890123 bar...'') 3 \<and>
   list_all (\<lambda>j. \<not> occurs_at key
        (ascii ''...'' @ key @ ascii '' AB-123/2024'' @ [10] @ ascii ''foo 1234567890123 bar...'') j)
      [0, 1, 2] \<and>
   get_stevilka (ascii ''...'' @ key @ ascii '' AB-123/2024'' @ [10] @ ascii ''foo 1234567890123 bar...'')
     = Some (ascii ''AB-123/2024'') \<and>
   get_stevilka (ascii ''foo 1234567890123 bar'') = None"
proof -
  let ?t = "ascii ''...'' @ key @ ascii '' AB-123/2024'' @ [10] @ ascii ''foo 1234567890123 bar...''"
  have t: "?t = [46, 46, 46, 352, 116, 101, 118, 105, 108, 107, 97, 58, 32, 65, 66, 45, 49, 50,
                 51, 47, 50, 48, 50, 52, 10, 102, 111, 111, 32, 49, 50, 51, 52, 53, 54, 55, 56,
                 57, 48, 49, 50, 51, 32, 98, 97, 114, 46, 46, 46]"
    by (simp add: key_chars ascii_simps)
  have h1: "occurs_at key ?t 3"
    unfolding t by (simp add: occurs_at_def key_chars)
  have n: "\<not> occurs_at key ?t 0" "\<not> occurs_at key ?t 1" "\<not> occurs_at key ?t 2"
    unfolding t by (simp_all add: occurs_at_def key_chars)
  then have h2: "\<forall>j<3. \<not> occurs_at key ?t j"
    by (simp add: less_3)
  have v: "strip (takeWhile (\<lambda>c. c \<noteq> 10) (drop (3 + length key) ?t)) = ascii ''AB-123/2024''"
    unfolding t by (simp add: key_chars strip_def space_chars ascii_simps)
  have "352 \<notin> set (ascii ''foo 1234567890123 bar'')"
    by (simp add: ascii_simps)
  then have h3: "\<forall>i. \<not> occurs_at key (ascii ''foo 1234567890123 bar'') i"
    using occurs_at_hd [of 352 _ "ascii ''foo 1234567890123 bar''"] by (auto simp: key_chars)
  show ?thesis
    using get_stevilka_spec [of ?t, THEN conjunct2, rule_format, of 3]
      get_stevilka_spec [of "ascii ''foo 1234567890123 bar''", THEN conjunct1]
      h1 h2 h3 n v
    by simp
qed

theorem get_stevilka_trimmed_witness:
  "get_stevilka (key @ ascii ''  42 '' @ [9, 10] @ ascii ''x'') = Some (ascii ''42'') \<and>
   10 \<notin> set (ascii ''42'') \<and> strip (ascii ''42'') = ascii ''42''"
proof -
  let ?t = "key @ ascii ''  42 '' @ [9, 10] @ ascii ''x''"
  have t: "?t = [352, 116, 101, 118, 105, 108, 107, 97, 58, 32, 32, 52, 50, 32, 9, 10, 120]"
    by (simp add: key_chars ascii_simps)
  have "occurs_at key ?t 0"
    unfolding t by (simp add: occurs_at_def key_chars)
  then have "get_stevilka ?t
      = Some (strip (takeWhile (\<lambda>c. c \<noteq> 10) (drop (0 + length key) ?t)))"
    by (rule get_stevilka_present) simp
  moreover have "strip (takeWhile (\<lambda>c. c \<noteq> 10) (drop (0 + length key) ?t)) = ascii ''42''"
    unfolding t by (simp add: key_chars strip_def space_chars ascii_simps)
  ultimately have f: "get_stevilka ?t = Some (ascii ''42'')"
    by simp
  show ?thesis
    using f get_stevilka_trimmed [OF f] by simp
qed

text \<open>
  C1, on the code. For the text abc, which has no run of thirteen digits,
  \<^verbatim>\<open>find_valid_emso\<close> returns the tuple of three values for "not found" without
  raising, and \<^verbatim>\<open>process_pdf\<close>, which unpacks the result into two names, raises
  \<^verbatim>\<open>ValueError\<close> where the claim has it return a record.
\<close>

theorem process_pdf_no_identifier:
  "find_valid_emso (ascii ''abc'') = Inr (Tuple3 None False (ascii ''No 13-digit number found'')) \<and>
   process_pdf (ascii ''scan.pdf'') (ascii ''abc'') = Inl ValueError"
proof -
  have n: "\<not> word_bounded_run (ascii ''abc'') i" for i
    by (rule short_text_no_run) (simp add: ascii_def)
  then have "find_valid_emso (ascii ''abc'') = Inr (Tuple3 None False (ascii ''No 13-digit number found''))"
    by (rule find_valid_emso_not_found)
  moreover have "ascii ''abc'' \<noteq> []"
    by (simp add: ascii_simps)
  ultimately show ?thesis
    by (simp add: process_pdf_def)
qed

text \<open>
  C9, on the code. For a text that is not empty and has the label with the reference
  AB-123/2024 but no run of thirteen digits, \<^verbatim>\<open>process_pdf\<close> raises
  \<^verbatim>\<open>ValueError\<close> where the claim has it return a record with the reference and an
  absent identifier. The lemma \<open>process_pdf_cases\<close> gives the result for every text.
\<close>

theorem process_pdf_reference_only:
  "get_stevilka (key @ ascii '' AB-123/2024'') = Some (ascii ''AB-123/2024'') \<and>
   process_pdf (ascii ''scan.pdf'') (key @ ascii '' AB-123/2024'') = Inl ValueError"
proof -
  let ?t = "key @ ascii '' AB-123/2024''"
  have t: "?t = [352, 116, 101, 118, 105, 108, 107, 97, 58, 32, 65, 66, 45, 49, 50, 51, 47, 50,
                 48, 50, 52]"
    by (simp add: key_chars ascii_simps)
  have "occurs_at key ?t 0"
    unfolding t by (simp add: occurs_at_def key_chars)
  then have "get_stevilka ?t
      = Some (strip (takeWhile (\<lambda>c. c \<noteq> 10) (drop (0 + length key) ?t)))"
    by (rule get_stevilka_present) simp
  moreover have "strip (takeWhile (\<lambda>c. c \<noteq> 10) (drop (0 + length key) ?t)) = ascii ''AB-123/2024''"
    unfolding t by (simp add: key_chars strip_def space_chars ascii_simps)
  moreover have "\<not> word_bounded_run ?t i" for i
  proof -
    have "i = 0 \<or> i = 1 \<or> i = 2 \<or> i = 3 \<or> i = 4 \<or> i = 5 \<or> i = 6 \<or> i = 7 \<or> i = 8 \<or> 8 < i"
      by arith
    then show ?thesis
      unfolding t
      by (elim disjE) (simp_all add: word_bounded_run_def run_at_def not_decimal_key)
  qed
  then have "findall ?t = []"
    by (simp add: findall_Nil match_at_word_bounded)
  moreover have "?t \<noteq> []"
    by (simp add: key_chars)
  ultimately show ?thesis
    by (simp add: process_pdf_cases)
qed


end
